theory Spec2Isabelle
  imports Main "HOL-Library.Word" "HOL-Library.Multiset"
begin

section \<open>Failures\<close>

text \<open>
  Every failure of the library is a \<^verbatim>\<open>std::runtime_error\<close> told apart by its message:
  "Pool is empty", "Buffer underflow", "State not registered", "Invalid transition",
  "No action for current state". An operation that can throw returns a pair: the
  outcome (\<open>Inl\<close> the failure, \<open>Inr\<close> the returned value) and the object as the
  call leaves it, so that the state after a throw is part of the model.
\<close>

datatype error =
    PoolExhausted
  | BufferUnderflow
  | UnregisteredState
  | InvalidTransition
  | MissingAction
  | ClientException
  | UndefinedBehaviour

text \<open>
  \<open>ClientException\<close> stands for whatever client code throws while the library
  calls it: a constructor of the pooled type, an action of the state machine
  (\<^verbatim>\<open>std::bad_function_call\<close> when the \<^verbatim>\<open>std::function\<close> is empty). The library
  catches nothing, so the exception leaves the operation that made the call.
  \<open>UndefinedBehaviour\<close> is no failure the library raises. It marks the places where
  the C++ has no defined meaning, an index past the end of \<^verbatim>\<open>storage\<close> or a null
  \<^verbatim>\<open>pool\<close> pointer dereferenced, so that the model does not give them a value silently.
\<close>

section \<open>DataBuffer\<close>

subsection \<open>Fixed-size values and their object representation\<close>

text \<open>
  \<^verbatim>\<open>operator<<\<close> and \<^verbatim>\<open>operator>>\<close> are templates over a type \<open>T\<close> and copy
  \<open>sizeof(T)\<close> bytes of the object with \<^verbatim>\<open>memcpy\<close>. The instances modelled are
  \<^verbatim>\<open>bool\<close>, the integers of 1, 2, 4 and 8 bytes (a signed and an unsigned integer
  of one width share their bytes), \<^verbatim>\<open>size_t\<close> (8 bytes) and a trivially copyable
  aggregate of \<open>n\<close> bytes given by its bytes. Integers are stored least significant
  byte first.
\<close>

type_synonym byte = "8 word"

datatype fixed_type = TBool | TInt8 | TInt16 | TInt32 | TInt64 | TSize | TStruct nat

datatype fixed_value =
    VBool bool
  | VInt8 "8 word"
  | VInt16 "16 word"
  | VInt32 "32 word"
  | VInt64 "64 word"
  | VSize "64 word"
  | VStruct "byte list"

fun type_of :: "fixed_value \<Rightarrow> fixed_type" where
  "type_of (VBool b) = TBool"
| "type_of (VInt8 w) = TInt8"
| "type_of (VInt16 w) = TInt16"
| "type_of (VInt32 w) = TInt32"
| "type_of (VInt64 w) = TInt64"
| "type_of (VSize w) = TSize"
| "type_of (VStruct bs) = TStruct (length bs)"

fun sizeof :: "fixed_type \<Rightarrow> nat" where
  "sizeof TBool = 1"
| "sizeof TInt8 = 1"
| "sizeof TInt16 = 2"
| "sizeof TInt32 = 4"
| "sizeof TInt64 = 8"
| "sizeof TSize = 8"
| "sizeof (TStruct n) = n"

fun le_bytes :: "nat \<Rightarrow> nat \<Rightarrow> byte list" where
  "le_bytes 0 n = []"
| "le_bytes (Suc k) n = of_nat (n mod 256) # le_bytes k (n div 256)"

fun le_nat :: "byte list \<Rightarrow> nat" where
  "le_nat [] = 0"
| "le_nat (b # bs) = unat b + 256 * le_nat bs"

fun object_repr :: "fixed_value \<Rightarrow> byte list" where
  "object_repr (VBool b) = [if b then 1 else 0]"
| "object_repr (VInt8 w) = le_bytes 1 (unat w)"
| "object_repr (VInt16 w) = le_bytes 2 (unat w)"
| "object_repr (VInt32 w) = le_bytes 4 (unat w)"
| "object_repr (VInt64 w) = le_bytes 8 (unat w)"
| "object_repr (VSize w) = le_bytes 8 (unat w)"
| "object_repr (VStruct bs) = bs"

fun from_repr :: "fixed_type \<Rightarrow> byte list \<Rightarrow> fixed_value" where
  "from_repr TBool bs = VBool (le_nat bs \<noteq> 0)"
| "from_repr TInt8 bs = VInt8 (of_nat (le_nat bs))"
| "from_repr TInt16 bs = VInt16 (of_nat (le_nat bs))"
| "from_repr TInt32 bs = VInt32 (of_nat (le_nat bs))"
| "from_repr TInt64 bs = VInt64 (of_nat (le_nat bs))"
| "from_repr TSize bs = VSize (of_nat (le_nat bs))"
| "from_repr (TStruct n) bs = VStruct bs"

text \<open>The \<^verbatim>\<open>size_t\<close> held by a value that was read at type \<^verbatim>\<open>size_t\<close>.\<close>

fun size_t_of :: "fixed_value \<Rightarrow> nat" where
  "size_t_of (VSize w) = unat w"
| "size_t_of v = le_nat (object_repr v)"

subsection \<open>The vector of bytes\<close>

text \<open>
  \<^verbatim>\<open>std::vector<char>::resize\<close> pads with zero bytes (or truncates);
  \<^verbatim>\<open>memcpy(dst + off, src, n)\<close> overwrites \<open>n\<close> bytes of \<open>dst\<close> from offset \<open>off\<close>;
  \<^verbatim>\<open>erase(begin(), begin() + n)\<close> drops the first \<open>n\<close> bytes.
\<close>

definition vec_resize :: "byte list \<Rightarrow> nat \<Rightarrow> byte list" where
  "vec_resize xs n = (if n \<le> length xs then take n xs else xs @ replicate (n - length xs) 0)"

definition memcpy :: "byte list \<Rightarrow> nat \<Rightarrow> byte list \<Rightarrow> nat \<Rightarrow> byte list" where
  "memcpy dst off src n = take off dst @ take n src @ drop (off + n) dst"

definition erase_front :: "byte list \<Rightarrow> nat \<Rightarrow> byte list" where
  "erase_front xs n = drop n xs"

definition byte_of_char :: "char \<Rightarrow> byte" where
  "byte_of_char c = of_nat (of_char c)"

definition char_of_byte :: "byte \<Rightarrow> char" where
  "char_of_byte b = char_of (unat b)"

subsection \<open>The buffer and its four operators\<close>

record DataBuffer =
  buffer :: "byte list"

definition DataBuffer_empty :: DataBuffer where
  "DataBuffer_empty = \<lparr>buffer = []\<rparr>"

text \<open>\<^verbatim>\<open>template<typename T> DataBuffer& operator<<(const T& data)\<close>\<close>

definition op_lshift :: "fixed_value \<Rightarrow> DataBuffer \<Rightarrow> DataBuffer" where
  "op_lshift data b =
     (let currentSize = length (buffer b);
          resized = vec_resize (buffer b) (currentSize + sizeof (type_of data))
      in b\<lparr>buffer := memcpy resized currentSize (object_repr data) (sizeof (type_of data))\<rparr>)"

text \<open>\<^verbatim>\<open>template<typename T> DataBuffer& operator>>(T& data)\<close>, the type given as \<open>T\<close>.\<close>

definition op_rshift :: "fixed_type \<Rightarrow> DataBuffer \<Rightarrow> (error + fixed_value) \<times> DataBuffer" where
  "op_rshift T b =
     (if length (buffer b) < sizeof T then (Inl BufferUnderflow, b)
      else (Inr (from_repr T (take (sizeof T) (buffer b))),
            b\<lparr>buffer := erase_front (buffer b) (sizeof T)\<rparr>))"

text \<open>\<^verbatim>\<open>DataBuffer& operator<<(const std::string& str)\<close>\<close>

definition op_lshift_string :: "string \<Rightarrow> DataBuffer \<Rightarrow> DataBuffer" where
  "op_lshift_string str b =
     (let len = length str;
          b1 = op_lshift (VSize (of_nat len)) b;
          currentSize = length (buffer b1);
          resized = vec_resize (buffer b1) (currentSize + len)
      in b1\<lparr>buffer := memcpy resized currentSize (map byte_of_char str) len\<rparr>)"

text \<open>\<^verbatim>\<open>DataBuffer& operator>>(std::string& str)\<close>: the length is read with the template
  operator, which consumes its 8 bytes before the payload is checked.\<close>

definition op_rshift_string :: "DataBuffer \<Rightarrow> (error + string) \<times> DataBuffer" where
  "op_rshift_string b =
     (case op_rshift TSize b of
        (Inl e, b1) \<Rightarrow> (Inl e, b1)
      | (Inr v, b1) \<Rightarrow>
          (let len = size_t_of v in
           if length (buffer b1) < len then (Inl BufferUnderflow, b1)
           else (Inr (map char_of_byte (take len (buffer b1))),
                 b1\<lparr>buffer := erase_front (buffer b1) len\<rparr>)))"

text \<open>Writing a sequence of values in order, and reading a sequence of types in order;
  the reads stop at the first failure, as the exception would.\<close>

fun write_all :: "fixed_value list \<Rightarrow> DataBuffer \<Rightarrow> DataBuffer" where
  "write_all [] b = b"
| "write_all (v # vs) b = write_all vs (op_lshift v b)"

fun read_all :: "fixed_type list \<Rightarrow> DataBuffer \<Rightarrow> (error + fixed_value list) \<times> DataBuffer" where
  "read_all [] b = (Inr [], b)"
| "read_all (T # Ts) b =
     (case op_rshift T b of
        (Inl e, b1) \<Rightarrow> (Inl e, b1)
      | (Inr v, b1) \<Rightarrow>
          (case read_all Ts b1 of
             (Inl e, b2) \<Rightarrow> (Inl e, b2)
           | (Inr vs, b2) \<Rightarrow> (Inr (v # vs), b2)))"


section \<open>Pool\<close>

text \<open>
  \<^verbatim>\<open>storage\<close> is a vector of owned values and \<^verbatim>\<open>available\<close> a FIFO queue of indices
  (front of the queue = head of the list). The value type's default constructor and its
  constructor from arguments are parameters \<open>dflt\<close> and \<open>ctor\<close>: each gives the
  value it builds, or \<open>None\<close> when it throws. An \<^verbatim>\<open>Object\<close> holds a pointer to its pool, null once moved from, and an
  index; one pool is modelled, so the pointer is either null or that pool.
\<close>

record 'a Pool =
  storage :: "'a list"
  available :: "nat list"

datatype pool_ptr = Null | PoolPtr

record Object =
  pool :: pool_ptr
  index :: nat

definition Pool_empty :: "'a Pool" where
  "Pool_empty = \<lparr>storage = [], available = []\<rparr>"

text \<open>\<^verbatim>\<open>Object(Pool<TType>* p, size_t i)\<close>\<close>

definition Object_ctor :: "pool_ptr \<Rightarrow> nat \<Rightarrow> Object" where
  "Object_ctor p i = \<lparr>pool = p, index = i\<rparr>"

text \<open>\<^verbatim>\<open>~Object()\<close>: the pool after the destructor has run.\<close>

definition Object_dtor :: "Object \<Rightarrow> 'a Pool \<Rightarrow> 'a Pool" where
  "Object_dtor obj P =
     (case pool obj of
        PoolPtr \<Rightarrow> P\<lparr>available := available P @ [index obj]\<rparr>
      | Null \<Rightarrow> P)"

text \<open>\<^verbatim>\<open>Object(Object&& other)\<close>: the new object and \<open>other\<close> as the move leaves it.\<close>

definition Object_move :: "Object \<Rightarrow> Object \<times> Object" where
  "Object_move other = (\<lparr>pool = pool other, index = index other\<rparr>, other\<lparr>pool := Null\<rparr>)"

text \<open>\<^verbatim>\<open>TType* operator->()\<close>, read through: the value the lease points at.\<close>

definition Object_arrow :: "Object \<Rightarrow> 'a Pool \<Rightarrow> error + 'a" where
  "Object_arrow obj P =
     (case pool obj of
        Null \<Rightarrow> Inl UndefinedBehaviour
      | PoolPtr \<Rightarrow>
          if index obj < length (storage P) then Inr (storage P ! index obj)
          else Inl UndefinedBehaviour)"

text \<open>A client mutating the leased value through \<^verbatim>\<open>operator->\<close>.\<close>

definition Object_mutate :: "Object \<Rightarrow> ('a \<Rightarrow> 'a) \<Rightarrow> 'a Pool \<Rightarrow> 'a Pool" where
  "Object_mutate obj f P =
     (case Object_arrow obj P of
        Inl e \<Rightarrow> P
      | Inr v \<Rightarrow> P\<lparr>storage := (storage P)[index obj := f v]\<rparr>)"

text \<open>\<^verbatim>\<open>void resize(const size_t& numberOfObjectStored)\<close>; \<^verbatim>\<open>reserve\<close> changes no
  content, the loop pushes a default value and its index until the size is reached.
  \<^verbatim>\<open>make_unique\<close> runs before \<^verbatim>\<open>push_back\<close>: a default constructor that throws
  ends the loop with nothing pushed in that round.\<close>

function resize :: "'a option \<Rightarrow> nat \<Rightarrow> 'a Pool \<Rightarrow> (error + unit) \<times> 'a Pool" where
  "resize dflt numberOfObjectStored P =
     (if length (storage P) < numberOfObjectStored then
        (case dflt of
           None \<Rightarrow> (Inl ClientException, P)
         | Some v \<Rightarrow>
             (let P1 = P\<lparr>storage := storage P @ [v]\<rparr>;
                  P2 = P1\<lparr>available := available P1 @ [length (storage P1) - 1]\<rparr>
              in resize dflt numberOfObjectStored P2))
      else (Inr (), P))"
  by pat_completeness auto
termination
  by (relation "measure (\<lambda>(dflt, n, P). n - length (storage P))") auto

text \<open>\<^verbatim>\<open>template<typename... TArgs> Object acquire(TArgs&&... p_args)\<close>. The index is
  popped first; then \<^verbatim>\<open>make_unique\<close> runs the constructor, and only its result is
  assigned to \<^verbatim>\<open>storage[index]\<close>. A constructor that throws leaves the pool with the
  index popped.\<close>

definition acquire ::
  "('args \<Rightarrow> 'a option) \<Rightarrow> 'args \<Rightarrow> 'a Pool \<Rightarrow> (error + Object) \<times> 'a Pool" where
  "acquire ctor p_args P =
     (if available P = [] then (Inl PoolExhausted, P)
      else
        (let i = hd (available P);
             P1 = P\<lparr>available := tl (available P)\<rparr>
         in case ctor p_args of
              None \<Rightarrow> (Inl ClientException, P1)
            | Some v \<Rightarrow>
                if i < length (storage P1)
                then (Inr (Object_ctor PoolPtr i), P1\<lparr>storage := (storage P1)[i := v]\<rparr>)
                else (Inl UndefinedBehaviour, P1)))"

subsection \<open>A pool and the Objects alive around it\<close>

text \<open>
  The Objects that exist at an instant are kept in a list. A client grows the pool,
  acquires (a new Object joins the list when the call returns one), move-constructs a
  new Object from the \<open>k\<close>-th live one (which stays alive, moved from), or lets the
  \<open>k\<close>-th live one be destroyed. A position that names no live Object does nothing.
  A call that throws leaves the pool as the throw found it, and the client goes on.
\<close>

record 'a pool_world =
  the_pool :: "'a Pool"
  objects :: "Object list"

datatype 'args pool_op = Resize nat | Acquire 'args | Move nat | Destroy nat

definition pool_step ::
  "'a option \<Rightarrow> ('args \<Rightarrow> 'a option) \<Rightarrow> 'args pool_op \<Rightarrow> 'a pool_world \<Rightarrow> 'a pool_world" where
  "pool_step dflt ctor opn w =
     (case opn of
        Resize n \<Rightarrow> w\<lparr>the_pool := snd (resize dflt n (the_pool w))\<rparr>
      | Acquire p_args \<Rightarrow>
          (case acquire ctor p_args (the_pool w) of
             (Inl e, P) \<Rightarrow> w\<lparr>the_pool := P\<rparr>
           | (Inr obj, P) \<Rightarrow> w\<lparr>the_pool := P, objects := objects w @ [obj]\<rparr>)
      | Move k \<Rightarrow>
          (if k < length (objects w) then
             (case Object_move (objects w ! k) of
                (new, other) \<Rightarrow> w\<lparr>objects := (objects w)[k := other] @ [new]\<rparr>)
           else w)
      | Destroy k \<Rightarrow>
          (if k < length (objects w) then
             w\<lparr>the_pool := Object_dtor (objects w ! k) (the_pool w),
               objects := take k (objects w) @ drop (Suc k) (objects w)\<rparr>
           else w))"

fun pool_run ::
  "'a option \<Rightarrow> ('args \<Rightarrow> 'a option) \<Rightarrow> 'args pool_op list \<Rightarrow> 'a pool_world \<Rightarrow> 'a pool_world"
  where
  "pool_run dflt ctor [] w = w"
| "pool_run dflt ctor (opn # ops) w = pool_run dflt ctor ops (pool_step dflt ctor opn w)"

definition pool_world_init :: "'a pool_world" where
  "pool_world_init = \<lparr>the_pool = Pool_empty, objects = []\<rparr>"



text \<open>The owners of slots: the free queue followed by the indices that live, not
  moved-from Objects hold. In \<open>pool_inv\<close> this list is a permutation of the slot
  indices \<open>0..<size\<close>; in \<open>pool_sub\<close> it holds slot indices only and none twice.\<close>

definition slot_owners :: "'a pool_world \<Rightarrow> nat list" where
  "slot_owners w =
     available (the_pool w) @ map index (filter (\<lambda>obj. pool obj = PoolPtr) (objects w))"

definition pool_inv :: "'a pool_world \<Rightarrow> bool" where
  "pool_inv w = (mset (slot_owners w) = mset [0..<length (storage (the_pool w))])"

definition pool_sub :: "'a pool_world \<Rightarrow> bool" where
  "pool_sub w = (mset (slot_owners w) \<subseteq># mset [0..<length (storage (the_pool w))])"


text \<open>Destroying a list of Objects one after the other.\<close>

fun destroy_all :: "Object list \<Rightarrow> 'a Pool \<Rightarrow> 'a Pool" where
  "destroy_all [] P = P"
| "destroy_all (obj # objs) P = destroy_all objs (Object_dtor obj P)"

text \<open>Moving a lease \<open>n\<close> times, each move out of the newest Object: the Objects
  left behind, oldest first, and the final owner.\<close>

fun move_chain :: "nat \<Rightarrow> Object \<Rightarrow> Object list \<times> Object" where
  "move_chain 0 obj = ([], obj)"
| "move_chain (Suc n) obj =
     (case Object_move obj of
        (new, other) \<Rightarrow> (case move_chain n new of (left, final) \<Rightarrow> (other # left, final)))"

section \<open>StateMachine\<close>

text \<open>
  An action is a \<^verbatim>\<open>std::function<void()>\<close>, a closure over the world outside the
  machine. It is modelled by what a call does: given the current state of the machine
  at the moment of the call (what the closure would read with \<^verbatim>\<open>getCurrentState\<close>
  through a captured reference) and the world, it either returns or throws, and leaves
  a world behind in both cases. An empty \<^verbatim>\<open>std::function\<close> throws
  \<^verbatim>\<open>std::bad_function_call\<close> when called and touches nothing. An action does not
  change the machine it belongs to. \<^verbatim>\<open>std::map::operator[]\<close> inserts a
  value-initialised entry (\<^verbatim>\<open>false\<close> for \<^verbatim>\<open>bool\<close>) when the key is absent;
  \<^verbatim>\<open>find\<close> inserts nothing.
\<close>

datatype 'w outcome = Returns 'w | Throws 'w

type_synonym ('s, 'w) action = "'s \<Rightarrow> 'w \<Rightarrow> 'w outcome"


record ('s, 'w) StateMachine =
  currentState :: 's
  stateActions :: "'s \<rightharpoonup> ('s, 'w) action"
  transitions :: "('s \<times> 's) \<rightharpoonup> ('s, 'w) action"
  states :: "'s \<rightharpoonup> bool"

definition StateMachine_init :: "'s \<Rightarrow> ('s, 'w) StateMachine" where
  "StateMachine_init s0 =
     \<lparr>currentState = s0, stateActions = Map.empty, transitions = Map.empty, states = Map.empty\<rparr>"

definition map_subscript :: "'v \<Rightarrow> ('k \<rightharpoonup> 'v) \<Rightarrow> 'k \<Rightarrow> 'v \<times> ('k \<rightharpoonup> 'v)" where
  "map_subscript dflt m k = (case m k of None \<Rightarrow> (dflt, m(k \<mapsto> dflt)) | Some v \<Rightarrow> (v, m))"

definition addState :: "'s \<Rightarrow> ('s, 'w) StateMachine \<Rightarrow> ('s, 'w) StateMachine" where
  "addState state sm = sm\<lparr>states := (states sm)(state \<mapsto> True)\<rparr>"

text \<open>The condition \<^verbatim>\<open>!states[startState] || !states[finalState]\<close> evaluates its
  second subscript only when the first operand is false.\<close>

definition addTransition ::
  "'s \<Rightarrow> 's \<Rightarrow> ('s, 'w) action \<Rightarrow> ('s, 'w) StateMachine \<Rightarrow>
     (error + unit) \<times> ('s, 'w) StateMachine" where
  "addTransition startState finalState lambda sm =
     (case map_subscript False (states sm) startState of
        (v1, m1) \<Rightarrow>
          if \<not> v1 then (Inl UnregisteredState, sm\<lparr>states := m1\<rparr>)
          else
            (case map_subscript False m1 finalState of
               (v2, m2) \<Rightarrow>
                 if \<not> v2 then (Inl UnregisteredState, sm\<lparr>states := m2\<rparr>)
                 else (Inr (), sm\<lparr>states := m2,
                         transitions := (transitions sm)((startState, finalState) \<mapsto> lambda)\<rparr>)))"

definition addAction ::
  "'s \<Rightarrow> ('s, 'w) action \<Rightarrow> ('s, 'w) StateMachine \<Rightarrow>
     (error + unit) \<times> ('s, 'w) StateMachine" where
  "addAction state lambda sm =
     (case map_subscript False (states sm) state of
        (v, m) \<Rightarrow>
          if \<not> v then (Inl UnregisteredState, sm\<lparr>states := m\<rparr>)
          else (Inr (), sm\<lparr>states := m, stateActions := (stateActions sm)(state \<mapsto> lambda)\<rparr>))"

text \<open>\<^verbatim>\<open>transitionTo\<close> and \<^verbatim>\<open>update\<close> call an action: they take and return the
  world beside the machine. In \<^verbatim>\<open>transitionTo\<close> the call comes first and the
  assignment to \<^verbatim>\<open>currentState\<close> second, so an action that throws leaves
  \<^verbatim>\<open>currentState\<close> as it was.\<close>

definition transitionTo ::
  "'s \<Rightarrow> ('s, 'w) StateMachine \<times> 'w \<Rightarrow> (error + unit) \<times> ('s, 'w) StateMachine \<times> 'w" where
  "transitionTo state mw =
     (case mw of (sm, w) \<Rightarrow>
        (case transitions sm (currentState sm, state) of
           None \<Rightarrow> (Inl InvalidTransition, sm, w)
         | Some action \<Rightarrow>
             (case action (currentState sm) w of
                Throws w' \<Rightarrow> (Inl ClientException, sm, w')
              | Returns w' \<Rightarrow> (Inr (), sm\<lparr>currentState := state\<rparr>, w'))))"

definition update ::
  "('s, 'w) StateMachine \<times> 'w \<Rightarrow> (error + unit) \<times> ('s, 'w) StateMachine \<times> 'w" where
  "update mw =
     (case mw of (sm, w) \<Rightarrow>
        (case stateActions sm (currentState sm) of
           None \<Rightarrow> (Inl MissingAction, sm, w)
         | Some action \<Rightarrow>
             (case action (currentState sm) w of
                Throws w' \<Rightarrow> (Inl ClientException, sm, w')
              | Returns w' \<Rightarrow> (Inr (), sm, w'))))"

definition getCurrentState :: "('s, 'w) StateMachine \<Rightarrow> 's" where
  "getCurrentState sm = currentState sm"

definition hasState :: "('s, 'w) StateMachine \<Rightarrow> 's \<Rightarrow> bool" where
  "hasState sm state = (states sm state \<noteq> None)"


definition hasAction :: "('s, 'w) StateMachine \<Rightarrow> 's \<Rightarrow> bool" where
  "hasAction sm state = (stateActions sm state \<noteq> None)"

text \<open>What \<^verbatim>\<open>states[state]\<close> reads in the checks of \<^verbatim>\<open>addTransition\<close> and
  \<^verbatim>\<open>addAction\<close>: the state was registered by \<^verbatim>\<open>addState\<close>.\<close>

definition registered :: "('s, 'w) StateMachine \<Rightarrow> 's \<Rightarrow> bool" where
  "registered sm state = (states sm state = Some True)"

subsection \<open>A client's calls on one machine\<close>

text \<open>A call that throws leaves the machine as the throw found it and the client
  goes on with the next call.\<close>

datatype ('s, 'w) sm_op =
    AddState 's
  | AddTransition 's 's "('s, 'w) action"
  | AddAction 's "('s, 'w) action"
  | TransitionTo 's
  | Update

definition sm_step ::
  "('s, 'w) sm_op \<Rightarrow> ('s, 'w) StateMachine \<times> 'w \<Rightarrow> ('s, 'w) StateMachine \<times> 'w" where
  "sm_step opn mw =
     (case opn of
        AddState s \<Rightarrow> (addState s (fst mw), snd mw)
      | AddTransition s t a \<Rightarrow> (snd (addTransition s t a (fst mw)), snd mw)
      | AddAction s a \<Rightarrow> (snd (addAction s a (fst mw)), snd mw)
      | TransitionTo s \<Rightarrow> snd (transitionTo s mw)
      | Update \<Rightarrow> snd (update mw))"

fun sm_run ::
  "('s, 'w) sm_op list \<Rightarrow> ('s, 'w) StateMachine \<times> 'w \<Rightarrow> ('s, 'w) StateMachine \<times> 'w" where
  "sm_run [] mw = mw"
| "sm_run (opn # ops) mw = sm_run ops (sm_step opn mw)"

text \<open>Whether a sequence of calls holds \<^verbatim>\<open>addState(s)\<close>.\<close>

fun adds_state :: "'s \<Rightarrow> ('s, 'w) sm_op list \<Rightarrow> bool" where
  "adds_state s [] = False"
| "adds_state s (AddState t # ops) = (s = t \<or> adds_state s ops)"
| "adds_state s (opn # ops) = adds_state s ops"

section \<open>Facts about the buffer\<close>

lemma length_le_bytes: "length (le_bytes k n) = k"
  by (induction k arbitrary: n) simp_all

lemma le_nat_le_bytes: "le_nat (le_bytes k n) = n mod 256 ^ k"
proof (induction k arbitrary: n)
  case 0
  show ?case by simp
next
  case (Suc k)
  have "unat (of_nat (n mod 256) :: byte) = n mod 256"
    by (simp add: unat_of_nat)
  then show ?case
    using Suc.IH [of "n div 256"] by (simp add: mod_mult2_eq)
qed

lemma length_object_repr: "length (object_repr v) = sizeof (type_of v)"
  by (cases v) (simp_all add: length_le_bytes)

lemma from_repr_object_repr: "from_repr (type_of v) (object_repr v) = v"
proof (cases v)
  case (VBool b)
  then show ?thesis by simp
next
  case (VInt8 w)
  have "unat w < 256 ^ 1" using unsigned_less [of w, where 'a = nat] by simp
  then show ?thesis using VInt8 by (simp add: le_nat_le_bytes)
next
  case (VInt16 w)
  have "unat w < 256 ^ 2" using unsigned_less [of w, where 'a = nat] by simp
  then show ?thesis using VInt16 by (simp add: le_nat_le_bytes)
next
  case (VInt32 w)
  have "unat w < 256 ^ 4" using unsigned_less [of w, where 'a = nat] by simp
  then show ?thesis using VInt32 by (simp add: le_nat_le_bytes)
next
  case (VInt64 w)
  have "unat w < 256 ^ 8" using unsigned_less [of w, where 'a = nat] by simp
  then show ?thesis using VInt64 by (simp add: le_nat_le_bytes)
next
  case (VSize w)
  have "unat w < 256 ^ 8" using unsigned_less [of w, where 'a = nat] by simp
  then show ?thesis using VSize by (simp add: le_nat_le_bytes)
next
  case (VStruct bs)
  then show ?thesis by simp
qed

text \<open>The resize-then-memcpy of a write is an append.\<close>

lemma op_lshift_eq: "op_lshift v b = b\<lparr>buffer := buffer b @ object_repr v\<rparr>"
  by (simp add: op_lshift_def Let_def vec_resize_def memcpy_def length_object_repr [symmetric])

lemma op_rshift_append:
  "op_rshift (type_of v) (b\<lparr>buffer := object_repr v @ rest\<rparr>) = (Inr v, b\<lparr>buffer := rest\<rparr>)"
  by (simp add: op_rshift_def erase_front_def length_object_repr [symmetric] from_repr_object_repr)

lemma write_all_eq: "write_all vs b = b\<lparr>buffer := buffer b @ concat (map object_repr vs)\<rparr>"
  by (induction vs arbitrary: b) (simp_all add: op_lshift_eq)

lemma read_all_concat:
  "read_all (map type_of vs) (b\<lparr>buffer := concat (map object_repr vs) @ rest\<rparr>)
     = (Inr vs, b\<lparr>buffer := rest\<rparr>)"
proof (induction vs arbitrary: b)
  case Nil
  show ?case by simp
next
  case (Cons v vs)
  have "op_rshift (type_of v) (b\<lparr>buffer := object_repr v @ (concat (map object_repr vs) @ rest)\<rparr>)
        = (Inr v, b\<lparr>buffer := concat (map object_repr vs) @ rest\<rparr>)"
    by (rule op_rshift_append)
  then show ?case using Cons.IH [of b] by simp
qed

lemma char_of_byte_of_char: "char_of_byte (byte_of_char c) = c"
proof -
  have "(of_char c :: nat) < 256" by simp
  then show ?thesis by (simp add: char_of_byte_def byte_of_char_def unat_of_nat)
qed

lemma map_char_of_byte_of_char: "map (char_of_byte \<circ> byte_of_char) str = str"
  by (simp add: comp_def char_of_byte_of_char)

lemma op_lshift_string_eq:
  "op_lshift_string str b =
     b\<lparr>buffer := buffer b @ object_repr (VSize (of_nat (length str))) @ map byte_of_char str\<rparr>"
  by (simp add: op_lshift_string_def Let_def op_lshift_eq vec_resize_def memcpy_def length_le_bytes)

lemma op_rshift_string_append:
  assumes "length str < 2 ^ 64"
  shows "op_rshift_string
           (b\<lparr>buffer := object_repr (VSize (of_nat (length str))) @ map byte_of_char str @ rest\<rparr>)
         = (Inr str, b\<lparr>buffer := rest\<rparr>)"
proof -
  let ?v = "VSize (of_nat (length str))"
  have len: "size_t_of ?v = length str"
    using assms by (simp add: unat_of_nat)
  have rd: "op_rshift TSize (b\<lparr>buffer := object_repr ?v @ (map byte_of_char str @ rest)\<rparr>)
            = (Inr ?v, b\<lparr>buffer := map byte_of_char str @ rest\<rparr>)"
    using op_rshift_append [where v = ?v and b = b and rest = "map byte_of_char str @ rest"]
    by simp
  show ?thesis
    unfolding op_rshift_string_def rd
    by (simp add: len erase_front_def map_char_of_byte_of_char
          del: size_t_of.simps object_repr.simps)
qed

text \<open>
  C2. Writing fixed-size values \<open>v1..vn\<close> of any of the modelled types, in order, into
  an empty buffer with \<^verbatim>\<open>operator<<\<close> and then reading with \<^verbatim>\<open>operator>>\<close> at the same
  types in the same order returns exactly \<open>v1..vn\<close>, raises no failure and leaves the
  buffer empty.
\<close>

theorem write_then_read_fixed_values:
  "read_all (map type_of vs) (write_all vs DataBuffer_empty) = (Inr vs, DataBuffer_empty)"
  using read_all_concat [where vs = vs and b = DataBuffer_empty and rest = "[]"]
  by (simp add: write_all_eq DataBuffer_empty_def)

theorem write_then_read_fixed_values_witness:
  "read_all [TInt32, TBool, TStruct 3]
     (write_all [VInt32 0x01020304, VBool True, VStruct [1, 2, 3]] DataBuffer_empty)
   = (Inr [VInt32 0x01020304, VBool True, VStruct [1, 2, 3]], DataBuffer_empty)"
proof -
  have t: "map type_of [VInt32 0x01020304, VBool True, VStruct [1, 2, 3]]
           = [TInt32, TBool, TStruct 3]"
    by simp
  show ?thesis
    using write_then_read_fixed_values [of "[VInt32 0x01020304, VBool True, VStruct [1, 2, 3]]"]
    unfolding t .
qed

text \<open>
  C4. A fixed-size read of \<open>T\<close> from a buffer that holds fewer than \<open>sizeof(T)\<close> bytes,
  the empty buffer included, fails with \<open>BufferUnderflow\<close> and leaves the buffer as it
  was; in particular the number of unconsumed bytes is the same after the failed read.
\<close>

theorem short_buffer_read_underflows:
  "length (buffer b) < sizeof T \<Longrightarrow>
     op_rshift T b = (Inl BufferUnderflow, b)
     \<and> length (buffer (snd (op_rshift T b))) = length (buffer b)"
  by (simp add: op_rshift_def)

theorem short_buffer_read_underflows_witness:
  "op_rshift TInt32 \<lparr>buffer = [1, 2, 3]\<rparr> = (Inl BufferUnderflow, \<lparr>buffer = [1, 2, 3]\<rparr>)
   \<and> op_rshift TBool DataBuffer_empty = (Inl BufferUnderflow, DataBuffer_empty)"
  using short_buffer_read_underflows [of "\<lparr>buffer = [1, 2, 3]\<rparr>" TInt32]
    short_buffer_read_underflows [of DataBuffer_empty TBool]
  by (simp add: DataBuffer_empty_def)

text \<open>
  C5. Writing a text into an empty buffer with the string \<^verbatim>\<open>operator<<\<close> and reading it
  with the string \<^verbatim>\<open>operator>>\<close> returns the same characters and raises no failure, the
  empty text included. The length travels as a \<^verbatim>\<open>size_t\<close>, so the text is one a
  \<^verbatim>\<open>std::string\<close> can hold: shorter than \<open>2 ^ 64\<close> characters.
\<close>

theorem write_then_read_string:
  "length str < 2 ^ 64 \<Longrightarrow>
     op_rshift_string (op_lshift_string str DataBuffer_empty) = (Inr str, DataBuffer_empty)"
  using op_rshift_string_append [where str = str and b = DataBuffer_empty and rest = "[]"]
  by (simp add: op_lshift_string_eq DataBuffer_empty_def)

theorem write_then_read_string_witness:
  "op_rshift_string (op_lshift_string ''hi'' DataBuffer_empty) = (Inr ''hi'', DataBuffer_empty)
   \<and> op_rshift_string (op_lshift_string [] DataBuffer_empty) = (Inr [], DataBuffer_empty)"
  using write_then_read_string [of "''hi''"] write_then_read_string [of "[]"] by simp

section \<open>Facts about the pool\<close>

declare resize.simps [simp del]

lemma resize_None:
  "resize None n P = (if length (storage P) < n then (Inl ClientException, P) else (Inr (), P))"
  by (subst resize.simps) simp

lemma resize_Some:
  "resize (Some v) n P =
     (Inr (), P\<lparr>storage := storage P @ replicate (n - length (storage P)) v,
               available := available P @ [length (storage P)..<n]\<rparr>)"
proof (induction k \<equiv> "n - length (storage P)" arbitrary: P)
  case 0
  then have "\<not> length (storage P) < n" by simp
  then show ?case by (subst resize.simps) simp
next
  case (Suc k)
  let ?P2 = "P\<lparr>storage := storage P @ [v], available := available P @ [length (storage P)]\<rparr>"
  have lt: "length (storage P) < n" using Suc.hyps(2) by simp
  have k: "k = n - length (storage ?P2)" using Suc.hyps(2) by simp
  have "resize (Some v) n P = resize (Some v) n ?P2"
    using lt by (subst resize.simps) (simp add: Let_def)
  also have "\<dots> = (Inr (), ?P2\<lparr>storage := storage ?P2 @ replicate (n - length (storage ?P2)) v,
       available := available ?P2 @ [length (storage ?P2)..<n]\<rparr>)"
    by (rule Suc.hyps(1) [OF k])
  also have "\<dots> = (Inr (), P\<lparr>storage := storage P @ replicate (n - length (storage P)) v,
       available := available P @ [length (storage P)..<n]\<rparr>)"
  proof -
    have a: "[v] @ replicate (n - Suc (length (storage P))) v = replicate (n - length (storage P)) v"
      using lt by (metis Suc_diff_Suc append_Cons append_Nil replicate_Suc)
    have b: "[length (storage P)] @ [Suc (length (storage P))..<n] = [length (storage P)..<n]"
      using lt by (simp add: upt_conv_Cons)
    show ?thesis using a b by simp
  qed
  finally show ?case .
qed

text \<open>
  C7. \<^verbatim>\<open>acquire\<close> fails with \<open>PoolExhausted\<close> exactly when the free-index queue is
  empty at the call; the failing call returns no Object and leaves the pool as it was.
\<close>

theorem acquire_exhausted_iff:
  "(fst (acquire ctor p_args P) = Inl PoolExhausted) = (available P = [])
   \<and> (available P = [] \<longrightarrow> acquire ctor p_args P = (Inl PoolExhausted, P))"
  by (simp add: acquire_def Let_def split: option.splits)

theorem acquire_exhausted_iff_witness:
  "acquire Some (7::nat) \<lparr>storage = [1, 2], available = []\<rparr>
     = (Inl PoolExhausted, \<lparr>storage = [1, 2], available = []\<rparr>)
   \<and> fst (acquire Some (7::nat) \<lparr>storage = [1, 2], available = [1]\<rparr>) \<noteq> Inl PoolExhausted"
  using acquire_exhausted_iff [of Some "7::nat" "\<lparr>storage = [1, 2], available = []\<rparr>"]
    acquire_exhausted_iff [of Some "7::nat" "\<lparr>storage = [1, 2], available = [1]\<rparr>"]
  by simp

lemma acquire_Inr:
  "acquire ctor p_args P = (Inr obj, P') \<Longrightarrow>
     \<exists>v. ctor p_args = Some v
       \<and> available P \<noteq> [] \<and> hd (available P) < length (storage P)
       \<and> obj = Object_ctor PoolPtr (hd (available P))
       \<and> P' = P\<lparr>available := tl (available P), storage := (storage P)[hd (available P) := v]\<rparr>"
  by (auto simp: acquire_def Let_def split: if_splits option.splits)

text \<open>
  C6. The Object that \<^verbatim>\<open>acquire\<close> returns points at the value that the constructor
  built from the supplied arguments, whatever the slot held before; and a mutation
  made through an earlier lease of the same slot changes neither the Object returned
  nor the pool that results.
\<close>

theorem acquire_reconstructs:
  "acquire ctor p_args P = (Inr obj, P') \<Longrightarrow>
     (\<exists>v. ctor p_args = Some v \<and> Object_arrow obj P' = Inr v)
     \<and> (\<forall>old f. index old = index obj \<longrightarrow>
           acquire ctor p_args (Object_mutate old f P) = (Inr obj, P'))"
proof -
  assume a: "acquire ctor p_args P = (Inr obj, P')"
  from acquire_Inr [OF a] obtain v where v: "ctor p_args = Some v"
    and f: "available P \<noteq> []" "hd (available P) < length (storage P)"
      "obj = Object_ctor PoolPtr (hd (available P))"
      "P' = P\<lparr>available := tl (available P), storage := (storage P)[hd (available P) := v]\<rparr>"
    by blast
  have 1: "Object_arrow obj P' = Inr v"
    using f by (simp add: Object_arrow_def Object_ctor_def)
  have 2: "acquire ctor p_args (Object_mutate old f P) = (Inr obj, P')"
    if "index old = index obj" for old :: Object and f
    using f v that
    by (simp add: Object_mutate_def Object_arrow_def Object_ctor_def acquire_def Let_def
          split: pool_ptr.splits)
  show ?thesis using v 1 2 by blast
qed

theorem acquire_reconstructs_witness:
  "acquire Some (7::nat) \<lparr>storage = [0], available = [0]\<rparr>
     = (Inr \<lparr>pool = PoolPtr, index = 0\<rparr>, \<lparr>storage = [7], available = []\<rparr>)
   \<and> Object_mutate \<lparr>pool = PoolPtr, index = 0\<rparr> (\<lambda>v. v + 40) \<lparr>storage = [7::nat], available = []\<rparr>
     = \<lparr>storage = [47], available = []\<rparr>
   \<and> Object_dtor \<lparr>pool = PoolPtr, index = 0\<rparr> \<lparr>storage = [47::nat], available = []\<rparr>
     = \<lparr>storage = [47], available = [0]\<rparr>
   \<and> acquire Some (9::nat) \<lparr>storage = [47], available = [0]\<rparr>
     = (Inr \<lparr>pool = PoolPtr, index = 0\<rparr>, \<lparr>storage = [9], available = []\<rparr>)
   \<and> Object_arrow \<lparr>pool = PoolPtr, index = 0\<rparr> \<lparr>storage = [9::nat], available = []\<rparr> = Inr 9
   \<and> acquire Some (9::nat) \<lparr>storage = [7], available = [0]\<rparr>
     = (Inr \<lparr>pool = PoolPtr, index = 0\<rparr>, \<lparr>storage = [9], available = []\<rparr>)"
proof -
  let ?obj = "\<lparr>pool = PoolPtr, index = 0\<rparr>"
  let ?Q = "\<lparr>storage = [7::nat], available = [0]\<rparr>"
  let ?Q' = "\<lparr>storage = [9::nat], available = []\<rparr>"
  have first: "acquire Some (7::nat) \<lparr>storage = [0], available = [0]\<rparr>
                 = (Inr ?obj, \<lparr>storage = [7], available = []\<rparr>)"
    by (simp add: acquire_def Object_ctor_def)
  have mut: "Object_mutate ?obj (\<lambda>v. v + 40) \<lparr>storage = [7::nat], available = []\<rparr>
               = \<lparr>storage = [47], available = []\<rparr>"
    by (simp add: Object_mutate_def Object_arrow_def)
  have rel: "Object_dtor ?obj \<lparr>storage = [47::nat], available = []\<rparr>
               = \<lparr>storage = [47], available = [0]\<rparr>"
    by (simp add: Object_dtor_def)
  have again: "acquire Some (9::nat) ?Q = (Inr ?obj, ?Q')"
    by (simp add: acquire_def Object_ctor_def)
  have mutQ: "Object_mutate ?obj (\<lambda>v. v + 40) ?Q = \<lparr>storage = [47], available = [0]\<rparr>"
    by (simp add: Object_mutate_def Object_arrow_def)
  note t = acquire_reconstructs [OF again]
  have seen: "Object_arrow ?obj ?Q' = Inr 9"
    using t by auto
  have "acquire Some (9::nat) (Object_mutate ?obj (\<lambda>v. v + 40) ?Q) = (Inr ?obj, ?Q')"
    using t by blast
  then have same: "acquire Some (9::nat) \<lparr>storage = [47], available = [0]\<rparr> = (Inr ?obj, ?Q')"
    by (simp only: mutQ)
  show ?thesis using first mut rel same seen again by blast
qed

lemma destroy_all_eq:
  "destroy_all objs P =
     P\<lparr>available := available P @ map index (filter (\<lambda>obj. pool obj = PoolPtr) objs)\<rparr>"
  by (induction objs arbitrary: P) (simp_all add: Object_dtor_def split: pool_ptr.splits)

lemma move_chain_shape:
  "move_chain n obj = (left, final) \<Longrightarrow>
     (\<forall>x \<in> set left. pool x = Null) \<and> pool final = pool obj \<and> index final = index obj"
proof (induction n arbitrary: obj left final)
  case 0
  then show ?case by simp
next
  case (Suc n)
  then show ?case
    by (auto simp: Object_move_def split: prod.splits)
qed


text \<open>What each call does to the owners of slots and to the number of slots.\<close>

lemma resize_owners:
  "\<exists>m. length (storage (snd (resize dflt n P))) = length (storage P) + m
       \<and> available (snd (resize dflt n P))
           = available P @ [length (storage P)..<length (storage P) + m]"
proof (cases dflt)
  case None
  then show ?thesis by (simp add: resize_None)
next
  case (Some v)
  show ?thesis
  proof (cases "length (storage P) \<le> n")
    case True
    then show ?thesis
      unfolding Some resize_Some by (intro exI [of _ "n - length (storage P)"]) simp
  next
    case False
    then show ?thesis
      unfolding Some resize_Some by (intro exI [of _ 0]) simp
  qed
qed

lemma upt_split: "mset [0..<l + m] = mset [0..<l] + mset [l..<l + m]"
  using upt_add_eq_append [of 0 l m] by simp

lemma resize_step_owners:
  "\<exists>m. length (storage (the_pool (pool_step dflt ctor (Resize n) w)))
         = length (storage (the_pool w)) + m
       \<and> mset (slot_owners (pool_step dflt ctor (Resize n) w))
         = mset (slot_owners w)
           + mset [length (storage (the_pool w))..<length (storage (the_pool w)) + m]"
proof -
  obtain m where "length (storage (snd (resize dflt n (the_pool w)))) = length (storage (the_pool w)) + m"
    and "available (snd (resize dflt n (the_pool w)))
           = available (the_pool w) @ [length (storage (the_pool w))..<length (storage (the_pool w)) + m]"
    using resize_owners [of dflt n "the_pool w"] by blast
  then show ?thesis
    by (intro exI [of _ m]) (simp add: pool_step_def slot_owners_def del: mset_upt)
qed


lemma pool_sub_resize:
  assumes "pool_sub w"
  shows "pool_sub (pool_step dflt ctor (Resize n) w)"
proof -
  obtain m where len: "length (storage (the_pool (pool_step dflt ctor (Resize n) w)))
         = length (storage (the_pool w)) + m"
    and own: "mset (slot_owners (pool_step dflt ctor (Resize n) w))
         = mset (slot_owners w)
           + mset [length (storage (the_pool w))..<length (storage (the_pool w)) + m]"
    using resize_step_owners [of dflt ctor n w] by blast
  show ?thesis
    unfolding pool_sub_def len own upt_split
    using assms unfolding pool_sub_def by (simp only: mset_subset_eq_mono_add_right_cancel)
qed

lemma pool_sub_in_range:
  assumes "pool_sub w" "i \<in> set (slot_owners w)"
  shows "i < length (storage (the_pool w))"
proof -
  have "i \<in># mset (slot_owners w)" using assms(2) by simp
  then have "i \<in># mset [0..<length (storage (the_pool w))]"
    using assms(1) unfolding pool_sub_def by (rule mset_subset_eqD [rotated])
  then show ?thesis by simp
qed

lemma pool_inv_sub: "pool_inv w \<Longrightarrow> pool_sub w"
  by (simp add: pool_inv_def pool_sub_def)


lemma pool_sub_acquire:
  assumes "pool_sub w"
  shows "pool_sub (pool_step dflt ctor (Acquire p_args) w)"
proof (cases "available (the_pool w)")
  case Nil
  then show ?thesis
    using assms by (simp add: pool_step_def acquire_def)
next
  case (Cons i rest)
  let ?L = "image_mset index {#x \<in># mset (objects w). pool x = PoolPtr#}"
  have all: "add_mset i (mset rest + ?L) \<subseteq># mset [0..<length (storage (the_pool w))]"
    using assms Cons by (simp add: pool_sub_def slot_owners_def del: mset_upt)
  then have less: "mset rest + ?L \<subseteq># mset [0..<length (storage (the_pool w))]"
    by (metis mset_subset_eq_insertD subset_mset.less_imp_le)
  show ?thesis
  proof (cases "ctor p_args")
    case None
    then show ?thesis
      using Cons less
      by (simp add: pool_step_def acquire_def Let_def pool_sub_def slot_owners_def del: mset_upt)
  next
    case (Some v)
    show ?thesis
    proof (cases "i < length (storage (the_pool w))")
      case True
      then show ?thesis
        using Cons all Some
        by (simp add: pool_step_def acquire_def Let_def pool_sub_def slot_owners_def
              Object_ctor_def del: mset_upt)
    next
      case False
      then show ?thesis
        using Cons less Some
        by (simp add: pool_step_def acquire_def Let_def pool_sub_def slot_owners_def del: mset_upt)
    qed
  qed
qed

lemma filter_take_drop:
  assumes "k < length xs"
  shows "mset (filter P (take k xs @ drop (Suc k) xs)) + (if P (xs ! k) then {#xs ! k#} else {#})
         = mset (filter P xs)"
proof -
  have "xs = take k xs @ xs ! k # drop (Suc k) xs"
    using assms by (rule id_take_nth_drop)
  then have "mset (filter P xs) = mset (filter P (take k xs @ xs ! k # drop (Suc k) xs))"
    by simp
  then show ?thesis by simp
qed

lemma destroy_owners:
  "mset (slot_owners (pool_step dflt ctor (Destroy k) w)) = mset (slot_owners w)
   \<and> length (storage (the_pool (pool_step dflt ctor (Destroy k) w))) = length (storage (the_pool w))"
proof (cases "k < length (objects w)")
  case False
  then show ?thesis by (simp add: pool_step_def)
next
  case True
  let ?b = "\<lambda>obj. pool obj = PoolPtr"
  have m: "mset (map index (filter ?b (take k (objects w) @ drop (Suc k) (objects w))))
           + (if ?b (objects w ! k) then {#index (objects w ! k)#} else {#})
         = mset (map index (filter ?b (objects w)))"
    using filter_take_drop [OF True, of ?b, THEN arg_cong, of "image_mset index"]
    by (simp split: if_splits)
  show ?thesis
  proof (cases "pool (objects w ! k)")
    case Null
    then show ?thesis
      using True m by (simp add: pool_step_def slot_owners_def Object_dtor_def)
  next
    case PoolPtr
    then show ?thesis
      using True m by (simp add: pool_step_def slot_owners_def Object_dtor_def ac_simps)
  qed
qed

lemma move_owners:
  "mset (slot_owners (pool_step dflt ctor (Move k) w)) = mset (slot_owners w)
   \<and> length (storage (the_pool (pool_step dflt ctor (Move k) w))) = length (storage (the_pool w))"
proof (cases "k < length (objects w)")
  case False
  then show ?thesis by (simp add: pool_step_def)
next
  case True
  let ?b = "\<lambda>obj. pool obj = PoolPtr"
  let ?o = "objects w ! k"
  have upd: "(objects w)[k := ?o\<lparr>pool := Null\<rparr>]
             = take k (objects w) @ ?o\<lparr>pool := Null\<rparr> # drop (Suc k) (objects w)"
    using True by (rule upd_conv_take_nth_drop)
  have m: "mset (map index (filter ?b (take k (objects w) @ drop (Suc k) (objects w))))
           + (if ?b ?o then {#index ?o#} else {#})
         = mset (map index (filter ?b (objects w)))"
    using filter_take_drop [OF True, of ?b, THEN arg_cong, of "image_mset index"]
    by (simp split: if_splits)
  show ?thesis
  proof (cases "pool ?o")
    case Null
    then show ?thesis
      using True m by (simp add: pool_step_def slot_owners_def Object_move_def upd)
  next
    case PoolPtr
    then show ?thesis
      using True m by (simp add: pool_step_def slot_owners_def Object_move_def upd ac_simps)
  qed
qed

lemma pool_sub_step: "pool_sub w \<Longrightarrow> pool_sub (pool_step dflt ctor opn w)"
proof (cases opn)
  case (Resize n)
  assume "pool_sub w"
  then show ?thesis using Resize by (simp add: pool_sub_resize)
next
  case (Acquire a)
  assume "pool_sub w"
  then show ?thesis using Acquire by (simp add: pool_sub_acquire)
next
  case (Move k)
  assume "pool_sub w"
  then show ?thesis using Move move_owners [of dflt ctor k w] by (simp add: pool_sub_def)
next
  case (Destroy k)
  assume "pool_sub w"
  then show ?thesis using Destroy destroy_owners [of dflt ctor k w] by (simp add: pool_sub_def)
qed



lemma pool_sub_run: "pool_sub w \<Longrightarrow> pool_sub (pool_run dflt ctor ops w)"
  by (induction ops arbitrary: w) (simp_all add: pool_sub_step)


lemma pool_world_init_inv: "pool_inv pool_world_init"
  by (simp add: pool_inv_def slot_owners_def pool_world_init_def Pool_empty_def)




text \<open>On a pool that a client built, \<^verbatim>\<open>acquire\<close> never indexes past the end of
  \<^verbatim>\<open>storage\<close>: the queue holds slot indices only.\<close>

lemma acquire_defined:
  "fst (acquire ctor p_args (the_pool (pool_run dflt ctor' ops pool_world_init)))
     \<noteq> Inl UndefinedBehaviour"
proof -
  let ?w = "pool_run dflt ctor' ops pool_world_init"
  have sub: "pool_sub ?w" by (rule pool_sub_run [OF pool_inv_sub [OF pool_world_init_inv]])
  show ?thesis
  proof (cases "available (the_pool ?w)")
    case Nil
    then show ?thesis by (simp add: acquire_def)
  next
    case (Cons i rest)
    then have "i \<in> set (slot_owners ?w)" by (simp add: slot_owners_def)
    then have "i < length (storage (the_pool ?w))"
      using sub by (rule pool_sub_in_range [rotated])
    then show ?thesis using Cons by (simp add: acquire_def Let_def split: option.splits)
  qed
qed






text \<open>
  C9. The index of an acquired lease goes back to the free queue exactly once. After
  any number of moves, destroying a moved-from Object pushes nothing, destroying the
  final owner pushes the index, and destroying all of them, in any order, appends the
  index to the queue once.
\<close>

theorem lease_index_returned_once:
  "acquire ctor p_args P0 = (Inr obj, P1) \<Longrightarrow> move_chain n obj = (left, final) \<Longrightarrow>
     (\<forall>x \<in> set left. Object_dtor x P = P)
     \<and> Object_dtor final P = P\<lparr>available := available P @ [index obj]\<rparr>
     \<and> (\<forall>objs. mset objs = mset (final # left) \<longrightarrow>
           destroy_all objs P = P\<lparr>available := available P @ [index obj]\<rparr>)"
proof -
  assume a: "acquire ctor p_args P0 = (Inr obj, P1)" and c: "move_chain n obj = (left, final)"
  let ?b = "\<lambda>x. pool x = PoolPtr"
  have bound: "pool obj = PoolPtr"
    using acquire_Inr [OF a] by (auto simp: Object_ctor_def)
  note sh = move_chain_shape [OF c]
  have left: "\<forall>x \<in> set left. Object_dtor x P = P"
    using sh by (simp add: Object_dtor_def)
  have final: "Object_dtor final P = P\<lparr>available := available P @ [index obj]\<rparr>"
    using sh bound by (simp add: Object_dtor_def)
  have all: "destroy_all objs P = P\<lparr>available := available P @ [index obj]\<rparr>"
    if p: "mset objs = mset (final # left)" for objs
  proof -
    have "filter ?b left = []" using sh by (simp add: filter_empty_conv)
    then have "mset (filter ?b (final # left)) = {#final#}"
      using sh bound by simp
    moreover have "mset (filter ?b objs) = mset (filter ?b (final # left))"
      using p by (simp only: mset_filter)
    ultimately have "mset (filter ?b objs) = {#final#}" by simp
    then have "filter ?b objs = [final]" by (simp only: mset_single_iff)
    then show ?thesis using sh by (simp add: destroy_all_eq)
  qed
  show ?thesis using left final all by blast
qed

theorem lease_index_returned_once_witness:
  "acquire Some (7::nat) \<lparr>storage = [0, 0], available = [0, 1]\<rparr>
     = (Inr \<lparr>pool = PoolPtr, index = 0\<rparr>, \<lparr>storage = [7, 0], available = [1]\<rparr>)
   \<and> move_chain (Suc (Suc 0)) \<lparr>pool = PoolPtr, index = 0\<rparr>
     = ([\<lparr>pool = Null, index = 0\<rparr>, \<lparr>pool = Null, index = 0\<rparr>], \<lparr>pool = PoolPtr, index = 0\<rparr>)
   \<and> Object_dtor \<lparr>pool = Null, index = 0\<rparr> \<lparr>storage = [7::nat, 0], available = [1]\<rparr>
     = \<lparr>storage = [7, 0], available = [1]\<rparr>
   \<and> destroy_all [\<lparr>pool = Null, index = 0\<rparr>, \<lparr>pool = PoolPtr, index = 0\<rparr>, \<lparr>pool = Null, index = 0\<rparr>]
       \<lparr>storage = [7::nat, 0], available = [1]\<rparr>
     = \<lparr>storage = [7, 0], available = [1, 0]\<rparr>"
proof -
  let ?P1 = "\<lparr>storage = [7::nat, 0], available = [1]\<rparr>"
  let ?obj = "\<lparr>pool = PoolPtr, index = 0\<rparr>"
  let ?null = "\<lparr>pool = Null, index = 0\<rparr>"
  have a: "acquire Some (7::nat) \<lparr>storage = [0, 0], available = [0, 1]\<rparr> = (Inr ?obj, ?P1)"
    by (simp add: acquire_def Object_ctor_def)
  have c: "move_chain (Suc (Suc 0)) ?obj = ([?null, ?null], ?obj)"
    by (simp add: Object_move_def)
  note t = lease_index_returned_once [OF a c, of ?P1]
  have 1: "Object_dtor ?null ?P1 = ?P1" using t by simp
  have "mset [?null, ?obj, ?null] = mset (?obj # [?null, ?null])" by simp
  then have 2: "destroy_all [?null, ?obj, ?null] ?P1 = ?P1\<lparr>available := available ?P1 @ [index ?obj]\<rparr>"
    using t by blast
  show ?thesis using a c 1 2 by simp
qed

section \<open>Facts about the state machine\<close>






text \<open>Only \<^verbatim>\<open>addState\<close> registers a state: after any calls, a state is registered
  exactly when it was passed to \<^verbatim>\<open>addState\<close>.\<close>

lemma registered_step:
  "registered (fst (sm_step opn mw)) x = (registered (fst mw) x \<or> opn = AddState x)"
proof (cases opn)
  case (AddState s)
  then show ?thesis by (auto simp: sm_step_def addState_def registered_def)
next
  case (AddTransition s t a)
  then show ?thesis
    by (auto simp: sm_step_def addTransition_def map_subscript_def registered_def
          split: option.splits)
next
  case (AddAction s a)
  then show ?thesis
    by (auto simp: sm_step_def addAction_def map_subscript_def registered_def
          split: option.splits)
next
  case (TransitionTo s)
  then show ?thesis
    by (cases mw)
      (auto simp: sm_step_def transitionTo_def registered_def split: option.splits outcome.splits)
next
  case Update
  then show ?thesis
    by (cases mw)
      (auto simp: sm_step_def update_def registered_def split: option.splits outcome.splits)
qed

lemma adds_state_Cons: "adds_state x (opn # ops) = (opn = AddState x \<or> adds_state x ops)"
  by (cases opn) auto

lemma registered_run:
  "registered (fst (sm_run ops mw)) x = (registered (fst mw) x \<or> adds_state x ops)"
  by (induction ops arbitrary: mw) (auto simp: registered_step adds_state_Cons)

lemma registered_init: "\<not> registered (StateMachine_init s0) x"
  by (simp add: registered_def StateMachine_init_def)

lemma addTransition_start_unregistered:
  "\<not> registered sm s \<Longrightarrow>
     fst (addTransition s t a sm) = Inl UnregisteredState
     \<and> states (snd (addTransition s t a sm)) s = Some False
     \<and> \<not> registered (snd (addTransition s t a sm)) s"
  by (auto simp: addTransition_def map_subscript_def registered_def split: option.splits)

lemma addTransition_final_unregistered:
  "\<not> registered sm s \<Longrightarrow>
     fst (addTransition t s a sm) = Inl UnregisteredState
     \<and> hasState (snd (addTransition t s a sm)) s = (hasState sm s \<or> registered sm t \<or> t = s)
     \<and> \<not> registered (snd (addTransition t s a sm)) s"
  by (auto simp: addTransition_def map_subscript_def registered_def hasState_def split: option.splits)

lemma addAction_unregistered:
  "\<not> registered sm s \<Longrightarrow>
     fst (addAction s a sm) = Inl UnregisteredState
     \<and> states (snd (addAction s a sm)) s = Some False
     \<and> \<not> registered (snd (addAction s a sm)) s"
  by (auto simp: addAction_def map_subscript_def registered_def split: option.splits)

text \<open>
  C10, as stated, fails for \<^verbatim>\<open>addTransition(t, s, a)\<close> when \<open>t\<close> is not registered
  either: on the empty machine the call with \<open>t = 1\<close>, \<open>s = 2\<close> throws at the first
  operand of the condition, \<^verbatim>\<open>states[2]\<close> is never evaluated, and \<^verbatim>\<open>hasState(2)\<close> is
  false afterwards.
\<close>

theorem unregistered_pair_counterexample:
  "fst (addTransition (1::nat) 2 (\<lambda>(s::nat) (w::nat). Returns w) (StateMachine_init 0)) = Inl UnregisteredState
   \<and> \<not> hasState (snd (addTransition (1::nat) 2 (\<lambda>(s::nat) (w::nat). Returns w) (StateMachine_init 0))) 2"
  by (simp add: addTransition_def map_subscript_def StateMachine_init_def hasState_def)

text \<open>
  C10, amended. Let \<open>s\<close> be a state never passed to \<^verbatim>\<open>addState\<close>. Then
  \<^verbatim>\<open>addTransition(s, t, a)\<close> and \<^verbatim>\<open>addAction(s, a)\<close> raise \<open>UnregisteredState\<close> and
  leave \<open>s\<close> in the \<^verbatim>\<open>states\<close> map with value false, so \<^verbatim>\<open>hasState(s)\<close> is true;
  \<^verbatim>\<open>addTransition(t, s, a)\<close> raises \<open>UnregisteredState\<close> too, and afterwards
  \<^verbatim>\<open>hasState(s)\<close> is true exactly when it was true before, or \<open>t\<close> was passed to
  \<^verbatim>\<open>addState\<close>, or \<open>t\<close> is \<open>s\<close>. After any of the three failed calls, every
  \<^verbatim>\<open>addTransition\<close> and \<^verbatim>\<open>addAction\<close> that names \<open>s\<close> still fails.
\<close>

theorem unregistered_state_calls:
  "\<not> adds_state s ops \<Longrightarrow> sm = fst (sm_run ops (StateMachine_init s0, w0)) \<Longrightarrow>
   sm1 = snd (addTransition s t a sm) \<Longrightarrow> sm2 = snd (addTransition t s a sm) \<Longrightarrow>
   sm3 = snd (addAction s a sm) \<Longrightarrow>
     fst (addTransition s t a sm) = Inl UnregisteredState
     \<and> hasState sm1 s \<and> states sm1 s = Some False
     \<and> fst (addAction s a sm) = Inl UnregisteredState
     \<and> hasState sm3 s \<and> states sm3 s = Some False
     \<and> fst (addTransition t s a sm) = Inl UnregisteredState
     \<and> hasState sm2 s = (hasState sm s \<or> adds_state t ops \<or> t = s)
     \<and> (\<forall>sm' \<in> {sm1, sm2, sm3}. \<forall>t' a'.
           fst (addTransition s t' a' sm') = Inl UnregisteredState
           \<and> fst (addTransition t' s a' sm') = Inl UnregisteredState
           \<and> fst (addAction s a' sm') = Inl UnregisteredState)"
proof -
  assume h: "\<not> adds_state s ops" and sm: "sm = fst (sm_run ops (StateMachine_init s0, w0))"
    and sm1: "sm1 = snd (addTransition s t a sm)" and sm2: "sm2 = snd (addTransition t s a sm)"
    and sm3: "sm3 = snd (addAction s a sm)"
  have reg: "registered sm x = adds_state x ops" for x
    unfolding sm by (simp add: registered_run registered_init)
  have u: "\<not> registered sm s" using h by (simp add: reg)
  note A = addTransition_start_unregistered [OF u, of t a]
  note B = addTransition_final_unregistered [OF u, of t a]
  note C = addAction_unregistered [OF u, of a]
  have h1: "hasState sm1 s" using A by (simp add: sm1 hasState_def)
  have h3: "hasState sm3 s" using C by (simp add: sm3 hasState_def)
  have h2: "hasState sm2 s = (hasState sm s \<or> adds_state t ops \<or> t = s)"
    using B by (simp add: sm2 reg)
  have later: "fst (addTransition s t' a' sm') = Inl UnregisteredState
           \<and> fst (addTransition t' s a' sm') = Inl UnregisteredState
           \<and> fst (addAction s a' sm') = Inl UnregisteredState"
    if "\<not> registered sm' s" for sm' :: "('a, 'b) StateMachine" and t' a'
    using addTransition_start_unregistered [OF that, of t' a']
      addTransition_final_unregistered [OF that, of t' a']
      addAction_unregistered [OF that, of a']
    by simp
  have "\<not> registered sm1 s" "\<not> registered sm2 s" "\<not> registered sm3 s"
    using A B C by (simp_all add: sm1 sm2 sm3)
  then have all: "\<forall>sm' \<in> {sm1, sm2, sm3}. \<forall>t' a'.
           fst (addTransition s t' a' sm') = Inl UnregisteredState
           \<and> fst (addTransition t' s a' sm') = Inl UnregisteredState
           \<and> fst (addAction s a' sm') = Inl UnregisteredState"
    using later by blast
  show ?thesis using A B C h1 h2 h3 all unfolding sm1 sm2 sm3 by blast
qed

theorem unregistered_state_calls_witness:
  "\<not> adds_state (1::nat) [AddState 0 :: (nat, nat) sm_op]
   \<and> fst (addTransition 1 0 (\<lambda>s w. Returns w) (fst (sm_run [AddState 0] (StateMachine_init (0::nat), 0::nat))))
       = Inl UnregisteredState
   \<and> hasState (snd (addTransition 1 0 (\<lambda>s w. Returns w)
        (fst (sm_run [AddState 0] (StateMachine_init (0::nat), 0::nat))))) 1
   \<and> hasState (snd (addTransition 0 1 (\<lambda>s w. Returns w)
        (fst (sm_run [AddState 0] (StateMachine_init (0::nat), 0::nat))))) 1
   \<and> fst (addAction 1 (\<lambda>s w. Returns w) (snd (addTransition 0 1 (\<lambda>s w. Returns w)
        (fst (sm_run [AddState 0] (StateMachine_init (0::nat), 0::nat))))))
       = Inl UnregisteredState"
proof -
  let ?ops = "[AddState 0] :: (nat, nat) sm_op list"
  let ?sm = "fst (sm_run ?ops (StateMachine_init (0::nat), 0::nat))"
  have h: "\<not> adds_state (1::nat) ?ops" by simp
  note t = unregistered_state_calls [OF h refl refl refl refl, where t = 0 and a = "\<lambda>s w. Returns w"]
  have 1: "fst (addTransition 1 0 (\<lambda>s w. Returns w) ?sm) = Inl UnregisteredState"
    using t by blast
  have 2: "hasState (snd (addTransition 1 0 (\<lambda>s w. Returns w) ?sm)) 1"
    using t by blast
  have 3: "hasState (snd (addTransition 0 1 (\<lambda>s w. Returns w) ?sm)) 1"
    using t by simp
  have 4: "fst (addAction 1 (\<lambda>s w. Returns w) (snd (addTransition 0 1 (\<lambda>s w. Returns w) ?sm))) = Inl UnregisteredState"
    using t by blast
  show ?thesis using h 1 2 3 4 by blast
qed

lemma addTransition_frame:
  "fst (addTransition s t a sm) = Inl UnregisteredState \<Longrightarrow>
     currentState (snd (addTransition s t a sm)) = currentState sm
     \<and> transitions (snd (addTransition s t a sm)) = transitions sm
     \<and> stateActions (snd (addTransition s t a sm)) = stateActions sm
     \<and> registered (snd (addTransition s t a sm)) = registered sm"
  by (auto simp: addTransition_def map_subscript_def registered_def fun_eq_iff
        split: option.splits if_splits)

lemma addAction_frame:
  "fst (addAction s a sm) = Inl UnregisteredState \<Longrightarrow>
     currentState (snd (addAction s a sm)) = currentState sm
     \<and> transitions (snd (addAction s a sm)) = transitions sm
     \<and> stateActions (snd (addAction s a sm)) = stateActions sm
     \<and> registered (snd (addAction s a sm)) = registered sm"
  by (auto simp: addAction_def map_subscript_def registered_def fun_eq_iff
        split: option.splits if_splits)

lemma op_rshift_string_failure:
  "fst (op_rshift_string b) = Inl BufferUnderflow \<Longrightarrow>
     (length (buffer b) < sizeof TSize \<and> snd (op_rshift_string b) = b)
     \<or> (sizeof TSize \<le> length (buffer b)
        \<and> snd (op_rshift_string b) = b\<lparr>buffer := drop (sizeof TSize) (buffer b)\<rparr>)"
  by (auto simp: op_rshift_string_def op_rshift_def erase_front_def Let_def split: if_splits)

text \<open>
  C1, as stated, fails. A string read whose length prefix promises 5 characters while
  2 bytes follow fails with \<open>BufferUnderflow\<close> after the 8 bytes of the prefix have
  been consumed: 10 bytes before, 2 after. And \<^verbatim>\<open>addAction\<close> on a state that was
  never added fails with \<open>UnregisteredState\<close> and leaves that state as a key of
  \<^verbatim>\<open>states\<close>, so \<^verbatim>\<open>hasState\<close> turns from false to true.
\<close>

theorem failing_calls_change_state_counterexample:
  "op_rshift_string \<lparr>buffer = [5, 0, 0, 0, 0, 0, 0, 0, 104, 105]\<rparr>
     = (Inl BufferUnderflow, \<lparr>buffer = [104, 105]\<rparr>)
   \<and> fst (addAction (1::nat) (\<lambda>(s::nat) (w::nat). Returns w) (StateMachine_init 0)) = Inl UnregisteredState
   \<and> \<not> hasState (StateMachine_init 0 :: (nat, nat) StateMachine) 1
   \<and> hasState (snd (addAction (1::nat) (\<lambda>(s::nat) (w::nat). Returns w) (StateMachine_init 0))) 1"
  by (simp add: op_rshift_string_def op_rshift_def erase_front_def
        addAction_def map_subscript_def StateMachine_init_def hasState_def)

text \<open>
  C1, amended. A failing \<^verbatim>\<open>acquire\<close> (\<open>PoolExhausted\<close>), a failing fixed-size read
  (\<open>BufferUnderflow\<close>), a failing \<^verbatim>\<open>transitionTo\<close> (\<open>InvalidTransition\<close>) and a
  failing \<^verbatim>\<open>update\<close> (\<open>MissingAction\<close>) leave the component as it was. A string read
  that fails with \<open>BufferUnderflow\<close> either found fewer bytes than a length prefix
  and left the buffer as it was, or has consumed the prefix and nothing else. An
  \<^verbatim>\<open>addTransition\<close> or \<^verbatim>\<open>addAction\<close> that fails with \<open>UnregisteredState\<close> leaves the
  current state, the transitions, the state actions and the set of states registered by
  \<^verbatim>\<open>addState\<close> as they were.
\<close>

theorem failing_operations_effect:
  "(fst (acquire ctor p_args P) = Inl PoolExhausted \<longrightarrow> snd (acquire ctor p_args P) = P)
   \<and> (fst (op_rshift T b) = Inl BufferUnderflow \<longrightarrow> snd (op_rshift T b) = b)
   \<and> (fst (op_rshift_string b) = Inl BufferUnderflow \<longrightarrow>
        (length (buffer b) < sizeof TSize \<and> snd (op_rshift_string b) = b)
        \<or> (sizeof TSize \<le> length (buffer b)
           \<and> snd (op_rshift_string b) = b\<lparr>buffer := drop (sizeof TSize) (buffer b)\<rparr>))
   \<and> (fst (addTransition s t a sm) = Inl UnregisteredState \<longrightarrow>
        currentState (snd (addTransition s t a sm)) = currentState sm
        \<and> transitions (snd (addTransition s t a sm)) = transitions sm
        \<and> stateActions (snd (addTransition s t a sm)) = stateActions sm
        \<and> registered (snd (addTransition s t a sm)) = registered sm)
   \<and> (fst (addAction s a sm) = Inl UnregisteredState \<longrightarrow>
        currentState (snd (addAction s a sm)) = currentState sm
        \<and> transitions (snd (addAction s a sm)) = transitions sm
        \<and> stateActions (snd (addAction s a sm)) = stateActions sm
        \<and> registered (snd (addAction s a sm)) = registered sm)
   \<and> (fst (transitionTo s (sm, w)) = Inl InvalidTransition \<longrightarrow>
        snd (transitionTo s (sm, w)) = (sm, w))
   \<and> (fst (update (sm, w)) = Inl MissingAction \<longrightarrow> snd (update (sm, w)) = (sm, w))"
proof -
  have 1: "fst (acquire ctor p_args P) = Inl PoolExhausted \<longrightarrow> snd (acquire ctor p_args P) = P"
    by (simp add: acquire_def Let_def split: option.splits)
  have 2: "fst (op_rshift T b) = Inl BufferUnderflow \<longrightarrow> snd (op_rshift T b) = b"
    by (simp add: op_rshift_def)
  have 6: "fst (transitionTo s (sm, w)) = Inl InvalidTransition \<longrightarrow>
        snd (transitionTo s (sm, w)) = (sm, w)"
    by (simp add: transitionTo_def split: option.splits outcome.splits)
  have 7: "fst (update (sm, w)) = Inl MissingAction \<longrightarrow> snd (update (sm, w)) = (sm, w)"
    by (simp add: update_def split: option.splits outcome.splits)
  show ?thesis
    using 1 2 op_rshift_string_failure [of b] addTransition_frame [of s t a sm]
      addAction_frame [of s a sm] 6 7
    by blast
qed

theorem failing_operations_effect_witness:
  "snd (acquire Some (7::nat) \<lparr>storage = [1, 2], available = []\<rparr>)
     = \<lparr>storage = [1, 2], available = []\<rparr>
   \<and> snd (op_rshift TInt32 \<lparr>buffer = [1, 2, 3]\<rparr>) = \<lparr>buffer = [1, 2, 3]\<rparr>
   \<and> snd (op_rshift_string \<lparr>buffer = [5, 0, 0, 0, 0, 0, 0, 0, 104, 105]\<rparr>) = \<lparr>buffer = [104, 105]\<rparr>
   \<and> transitions (snd (addTransition (1::nat) 2 (\<lambda>(s::nat) (w::nat). Returns w) (StateMachine_init 0))) = Map.empty
   \<and> \<not> registered (snd (addAction (1::nat) (\<lambda>(s::nat) (w::nat). Returns w) (StateMachine_init 0))) 1
   \<and> snd (transitionTo (1::nat) (StateMachine_init 0, 0::nat)) = (StateMachine_init 0, 0)
   \<and> snd (update (StateMachine_init (0::nat), 0::nat)) = (StateMachine_init 0, 0)"
proof -
  let ?P = "\<lparr>storage = [1, 2::nat], available = []\<rparr>"
  let ?b = "\<lparr>buffer = [1, 2, 3]\<rparr>"
  let ?c = "\<lparr>buffer = [5, 0, 0, 0, 0, 0, 0, 0, 104, 105]\<rparr>"
  let ?sm = "StateMachine_init (0::nat) :: (nat, nat) StateMachine"
  let ?a = "\<lambda>(s::nat) (w::nat). Returns w"
  have a1: "fst (acquire Some (7::nat) ?P) = Inl PoolExhausted"
    by (simp add: acquire_def)
  have a2: "fst (op_rshift TInt32 ?b) = Inl BufferUnderflow"
    by (simp add: op_rshift_def)
  have a3: "fst (op_rshift_string ?c) = Inl BufferUnderflow \<and> \<not> length (buffer ?c) < sizeof TSize"
    by (simp add: op_rshift_string_def op_rshift_def erase_front_def)
  have a4: "fst (addTransition (1::nat) 2 ?a ?sm) = Inl UnregisteredState"
    by (simp add: addTransition_def map_subscript_def StateMachine_init_def)
  have a5: "fst (addAction (1::nat) ?a ?sm) = Inl UnregisteredState"
    by (simp add: addAction_def map_subscript_def StateMachine_init_def)
  have a6: "fst (transitionTo (1::nat) (?sm, 0::nat)) = Inl InvalidTransition"
    by (simp add: transitionTo_def StateMachine_init_def)
  have a7: "fst (update (?sm, 0::nat)) = Inl MissingAction"
    by (simp add: update_def StateMachine_init_def)
  have i: "transitions ?sm = Map.empty" "\<not> registered ?sm 1"
    by (simp_all add: StateMachine_init_def registered_def)
  note t1 = failing_operations_effect [where ctor = Some and p_args = "7::nat" and P = ?P
      and T = TInt32 and b = ?b and s = "1::nat" and t = 2 and a = ?a and sm = ?sm and w = "0::nat"]
  note t2 = failing_operations_effect [where ctor = Some and p_args = "7::nat" and P = ?P
      and T = TInt32 and b = ?c and s = "1::nat" and t = 2 and a = ?a and sm = ?sm and w = "0::nat"]
  have c1: "snd (acquire Some (7::nat) ?P) = ?P" using t1 a1 by blast
  have c2: "snd (op_rshift TInt32 ?b) = ?b" using t1 a2 by blast
  have "snd (op_rshift_string ?c) = ?c\<lparr>buffer := drop (sizeof TSize) (buffer ?c)\<rparr>"
    using t2 a3 by blast
  then have c3: "snd (op_rshift_string ?c) = \<lparr>buffer = [104, 105]\<rparr>" by simp
  have c4: "transitions (snd (addTransition (1::nat) 2 ?a ?sm)) = Map.empty"
    using t1 a4 i by metis
  have c5: "\<not> registered (snd (addAction (1::nat) ?a ?sm)) 1"
    using t1 a5 i by metis
  have c6: "snd (transitionTo (1::nat) (?sm, 0::nat)) = (?sm, 0)" using t1 a6 by blast
  have c7: "snd (update (?sm, 0::nat)) = (?sm, 0)" using t1 a7 by blast
  show ?thesis using c1 c2 c3 c4 c5 c6 c7 by blast
qed

end
